theory Spec2Isabelle
  imports Complex_Main
begin

section \<open>Data model of the styled-text editor (src/app/page.tsx)\<close>

text \<open>
  The component \<open>AdvancedTextEditor\<close> keeps its state in React hooks. The functions
  verified here read that state through their closures; the embedding passes it as a
  record. JavaScript numbers (font sizes, measured widths, pixel coordinates) are modelled
  as exact reals; character positions, which come from the text area's selection and from
  string indices, are naturals. A character is one element of the string the source
  indexes (\<open>textToProcess[i]\<close>); the code only ever compares it with the newline and
  the space.
\<close>

datatype alignment = AlignLeft | AlignCenter | AlignRight | AlignJustify

record TextStyle =
  fontSize :: real
  fontFamily :: string
  textColor :: string
  isBold :: bool
  isItalic :: bool
  isUnderline :: bool
  letterSpacing :: real
  wordSpacing :: real
  textAlign :: "alignment option"

record StyledRange =
  range_id :: string
  range_start :: nat
  range_end :: nat
  range_style :: TextStyle
  range_text :: string

record LineSegment =
  seg_char :: char
  seg_style :: TextStyle
  seg_width :: real

record LineData =
  segments :: "LineSegment list"
  metricsWidth :: real
  maxHeight :: real
  spaces :: nat
  effectiveAlignment :: alignment

text \<open>The hooks of the component that the verified functions read or write.\<close>

record editor =
  st_text :: string
  st_fontSize :: real
  st_fontFamily :: string
  st_textColor :: string
  st_backgroundColor :: string
  st_lineHeight :: real
  st_isBold :: bool
  st_isItalic :: bool
  st_isUnderline :: bool
  st_textAlign :: alignment
  st_letterSpacing :: real
  st_wordSpacing :: real
  st_styledRanges :: "StyledRange list"
  st_selectedRange :: "(nat \<times> nat) option"

definition newline :: char where
  "newline = CHR 0x0A"

definition space :: char where
  "space = CHR '' ''"

section \<open>Style resolver and style-range creation\<close>

definition getDefaultStyle :: "editor \<Rightarrow> TextStyle" where
  "getDefaultStyle ed =
     \<lparr> fontSize = st_fontSize ed, fontFamily = st_fontFamily ed,
       textColor = st_textColor ed, isBold = st_isBold ed, isItalic = st_isItalic ed,
       isUnderline = st_isUnderline ed, letterSpacing = st_letterSpacing ed,
       wordSpacing = st_wordSpacing ed, textAlign = Some (st_textAlign ed) \<rparr>"

text \<open>The predicate handed to \<open>Array.prototype.find\<close> in \<open>getStyleForPosition\<close>.\<close>

definition covers :: "nat \<Rightarrow> StyledRange \<Rightarrow> bool" where
  "covers position r = (position \<ge> range_start r \<and> position < range_end r)"

definition getStyleForPosition :: "editor \<Rightarrow> nat \<Rightarrow> TextStyle" where
  "getStyleForPosition ed position =
     (case find (covers position) (st_styledRanges ed) of
        Some applicableRange \<Rightarrow> range_style applicableRange
      | None \<Rightarrow> getDefaultStyle ed)"

text \<open>\<open>Date.now().toString()\<close>: the decimal numeral of the clock reading.\<close>

definition digit_char :: "nat \<Rightarrow> char" where
  "digit_char d = char_of (48 + d)"

fun toString :: "nat \<Rightarrow> string" where
  "toString n = (if n < 10 then [digit_char n] else toString (n div 10) @ [digit_char (n mod 10)])"

declare toString.simps [simp del]

text \<open>\<open>String.prototype.slice\<close> on indices that are not negative.\<close>

definition slice :: "'a list \<Rightarrow> nat \<Rightarrow> nat \<Rightarrow> 'a list" where
  "slice xs from_ix to_ix = drop from_ix (take to_ix xs)"

text \<open>The predicate of the \<open>filter\<close> in \<open>applyStyleToSelection\<close>: the ranges kept.\<close>

definition keeps :: "nat \<Rightarrow> nat \<Rightarrow> StyledRange \<Rightarrow> bool" where
  "keeps sel_start sel_end r = (range_end r \<le> sel_start \<or> range_start r \<ge> sel_end)"

text \<open>
  \<open>applyStyleToSelection\<close>; \<open>now\<close> is the reading of \<open>Date.now()\<close>. The early return
  leaves every hook as it was.
\<close>

definition applyStyleToSelection :: "nat \<Rightarrow> editor \<Rightarrow> editor" where
  "applyStyleToSelection now ed =
     (case st_selectedRange ed of
        None \<Rightarrow> ed
      | Some (sel_start, sel_end) \<Rightarrow>
          if sel_start = sel_end then ed
          else
            let selectedTextContent = slice (st_text ed) sel_start sel_end;
                newRange = \<lparr> range_id = toString now, range_start = sel_start,
                             range_end = sel_end, range_style = getDefaultStyle ed,
                             range_text = selectedTextContent \<rparr>;
                filteredRanges = filter (keeps sel_start sel_end) (st_styledRanges ed)
            in ed \<lparr> st_styledRanges := filteredRanges @ [newRange],
                    st_selectedRange := None \<rparr>)"

text \<open>
  The text area, as far as \<open>handleTextSelection\<close> reads it. The browser keeps
  \<open>selectionStart\<close> at or before \<open>selectionEnd\<close>; \<open>textareaOK\<close> records that.
\<close>

record textarea =
  selectionStart :: nat
  selectionEnd :: nat

definition textareaOK :: "textarea \<Rightarrow> bool" where
  "textareaOK ta = (selectionStart ta \<le> selectionEnd ta)"

text \<open>
  \<open>handleTextSelection\<close>, the one place besides \<open>applyStyleToSelection\<close> that writes the
  selection hook; \<open>None\<close> is a text area reference that is not set. The statistics hook
  it also updates is read by none of the functions verified here and is left out.
\<close>

definition handleTextSelection :: "textarea option \<Rightarrow> editor \<Rightarrow> editor" where
  "handleTextSelection textareaRef ed =
     (case textareaRef of
        None \<Rightarrow> ed
      | Some ta \<Rightarrow>
          let sel_start = selectionStart ta; sel_end = selectionEnd ta
          in ed \<lparr> st_selectedRange :=
                    (if sel_start \<noteq> sel_end then Some (sel_start, sel_end) else None) \<rparr>)"

text \<open>
  The vocabulary of the specification: a range is well formed when it is not empty, two
  ranges overlap when they share a position, and a list of ranges satisfies the
  non-overlap invariant when no two of its entries share one.
\<close>

definition wellFormed :: "StyledRange \<Rightarrow> bool" where
  "wellFormed r = (range_start r < range_end r)"

definition overlaps :: "nat \<Rightarrow> nat \<Rightarrow> StyledRange \<Rightarrow> bool" where
  "overlaps s e r = (max s (range_start r) < min e (range_end r))"

text \<open>A selection as the component can hold it: absent, or with its ends in order.\<close>

definition selectionOrdered :: "editor \<Rightarrow> bool" where
  "selectionOrdered ed =
     (case st_selectedRange ed of None \<Rightarrow> True | Some (s, e) \<Rightarrow> s \<le> e)"

fun nonOverlapping :: "StyledRange list \<Rightarrow> bool" where
  "nonOverlapping [] = True"
| "nonOverlapping (r # rs) =
     (list_all (\<lambda>r'. range_end r \<le> range_start r' \<or> range_end r' \<le> range_start r) rs
      \<and> nonOverlapping rs)"

section \<open>Segmenter and line breaker\<close>

text \<open>
  The browser is outside the program. What the code asks of it is taken as a parameter:
  whether the two 2D contexts exist, the text metrics of a character under the font,
  letter spacing and word spacing that the code has set on the context, and the pixels
  \<open>getImageData\<close> reads back from the offscreen canvas.
\<close>

record ctx_settings =
  ctx_italic :: bool
  ctx_bold :: bool
  ctx_fontSize :: real
  ctx_fontFamily :: string
  ctx_letterSpacing :: real
  ctx_wordSpacing :: real

record TextMetrics =
  tm_width :: real
  actualBoundingBoxAscent :: real

record ImageData =
  img_width :: nat
  img_height :: nat
  img_data :: "nat list"

datatype canvas_op =
    FillText ctx_settings string char real real
  | FillRect string real real real real
  | ClearRect real real real real
  | DrawOffscreen real real real real real real real real

record canvas =
  cv_width :: real
  cv_height :: real
  cv_ops :: "canvas_op list"

record browser =
  canvasContext :: bool
  offscreenContext :: bool
  measureText :: "ctx_settings \<Rightarrow> char \<Rightarrow> TextMetrics"
  getImageData :: "canvas \<Rightarrow> real \<Rightarrow> real \<Rightarrow> real \<Rightarrow> real \<Rightarrow> ImageData"

text \<open>The font string and the two spacings that the code writes to a context.\<close>

definition settingsOf :: "TextStyle \<Rightarrow> ctx_settings" where
  "settingsOf s =
     \<lparr> ctx_italic = isItalic s, ctx_bold = isBold s, ctx_fontSize = fontSize s,
       ctx_fontFamily = fontFamily s, ctx_letterSpacing = letterSpacing s,
       ctx_wordSpacing = wordSpacing s \<rparr>"

definition measureTextWidth :: "browser \<Rightarrow> char \<Rightarrow> TextStyle \<Rightarrow> real" where
  "measureTextWidth br c s = tm_width (measureText br (settingsOf s) c)"

definition getStyledSegments :: "browser \<Rightarrow> editor \<Rightarrow> string \<Rightarrow> LineSegment list" where
  "getStyledSegments br ed textToProcess =
     map (\<lambda>i. let c = textToProcess ! i; s = getStyleForPosition ed i
              in \<lparr> seg_char = c, seg_style = s, seg_width = measureTextWidth br c s \<rparr>)
         [0 ..< length textToProcess]"

text \<open>The five accumulators of \<open>wrapStyledSegments\<close> and the lines pushed so far.\<close>

record wrap_state =
  lines :: "LineData list"
  currentLineSegments :: "LineSegment list"
  currentLineMetricsWidth :: real
  currentLineMaxHeight :: real
  currentLineSpaces :: nat
  currentLineEffectiveAlignment :: alignment

definition processLine :: "alignment \<Rightarrow> wrap_state \<Rightarrow> wrap_state" where
  "processLine globalAlign ws =
     \<lparr> lines =
         (if length (currentLineSegments ws) > 0
          then lines ws @
               [\<lparr> segments = currentLineSegments ws,
                   metricsWidth = currentLineMetricsWidth ws,
                   maxHeight = currentLineMaxHeight ws,
                   spaces = currentLineSpaces ws,
                   effectiveAlignment = currentLineEffectiveAlignment ws \<rparr>]
          else lines ws),
       currentLineSegments = [],
       currentLineMetricsWidth = 0,
       currentLineMaxHeight = 0,
       currentLineSpaces = 0,
       currentLineEffectiveAlignment = globalAlign \<rparr>"

text \<open>
  The backward scan for the last space: \<open>scanBack xs n\<close> is the loop with \<open>i = n - 1\<close>
  still to be visited; \<open>None\<close> is the source's \<open>-1\<close>.
\<close>

fun scanBack :: "LineSegment list \<Rightarrow> nat \<Rightarrow> nat option" where
  "scanBack xs 0 = None"
| "scanBack xs (Suc i) = (if seg_char (xs ! i) = space then Some i else scanBack xs i)"

definition lastSpaceIndex :: "LineSegment list \<Rightarrow> nat option" where
  "lastSpaceIndex xs = scanBack xs (length xs)"

text \<open>The three \<open>reduce\<close>/\<open>filter\<close> recomputations of a line's aggregates.\<close>

definition sumWidth :: "LineSegment list \<Rightarrow> real" where
  "sumWidth xs = foldl (\<lambda>sum s. sum + seg_width s) 0 xs"

definition maxLineHeight :: "real \<Rightarrow> LineSegment list \<Rightarrow> real" where
  "maxLineHeight lineHeight xs =
     foldl (\<lambda>m s. max m (fontSize (seg_style s) * lineHeight)) 0 xs"

definition countSpaces :: "LineSegment list \<Rightarrow> nat" where
  "countSpaces xs = length (filter (\<lambda>s. seg_char s = space) xs)"

text \<open>The alignment update at the head of the loop body.\<close>

definition adoptAlignment :: "alignment \<Rightarrow> LineSegment \<Rightarrow> wrap_state \<Rightarrow> wrap_state" where
  "adoptAlignment globalAlign segment ws =
     (case textAlign (seg_style segment) of
        Some a \<Rightarrow>
          if currentLineEffectiveAlignment ws = globalAlign
          then ws \<lparr> currentLineEffectiveAlignment := a \<rparr> else ws
      | None \<Rightarrow> ws)"

text \<open>The branch taken when the segment does not fit on a line that is not empty.\<close>

definition breakLine :: "real \<Rightarrow> alignment \<Rightarrow> wrap_state \<Rightarrow> wrap_state" where
  "breakLine lineHeight globalAlign ws =
     (case lastSpaceIndex (currentLineSegments ws) of
        Some lastSpace \<Rightarrow>
          let segmentsToMove = drop (lastSpace + 1) (currentLineSegments ws);
              kept = take (lastSpace + 1) (currentLineSegments ws);
              ws1 = processLine globalAlign
                      (ws \<lparr> currentLineSegments := kept,
                            currentLineMetricsWidth := sumWidth kept,
                            currentLineMaxHeight := maxLineHeight lineHeight kept,
                            currentLineSpaces := countSpaces kept \<rparr>)
          in ws1 \<lparr> currentLineSegments := segmentsToMove,
                   currentLineMetricsWidth := sumWidth segmentsToMove,
                   currentLineMaxHeight := maxLineHeight lineHeight segmentsToMove,
                   currentLineSpaces := countSpaces segmentsToMove,
                   currentLineEffectiveAlignment :=
                     (case segmentsToMove of
                        [] \<Rightarrow> globalAlign
                      | s # _ \<Rightarrow> (case textAlign (seg_style s) of
                                    Some a \<Rightarrow> a | None \<Rightarrow> globalAlign)) \<rparr>
      | None \<Rightarrow> processLine globalAlign ws)"

definition pushSegment :: "real \<Rightarrow> LineSegment \<Rightarrow> wrap_state \<Rightarrow> wrap_state" where
  "pushSegment lineHeight segment ws =
     ws \<lparr> currentLineSegments := currentLineSegments ws @ [segment],
          currentLineMetricsWidth := currentLineMetricsWidth ws + seg_width segment,
          currentLineMaxHeight :=
            max (currentLineMaxHeight ws) (fontSize (seg_style segment) * lineHeight),
          currentLineSpaces :=
            (if seg_char segment = space then currentLineSpaces ws + 1
             else currentLineSpaces ws) \<rparr>"

text \<open>The body of \<open>segments.forEach\<close>.\<close>

definition wrapSegment ::
  "real \<Rightarrow> alignment \<Rightarrow> real \<Rightarrow> wrap_state \<Rightarrow> LineSegment \<Rightarrow> wrap_state" where
  "wrapSegment lineHeight globalAlign targetWidth ws segment =
     (let ws1 = adoptAlignment globalAlign segment ws
      in if seg_char segment = newline then processLine globalAlign ws1
         else
           let ws2 =
                 (if currentLineMetricsWidth ws1 + seg_width segment > targetWidth
                     \<and> length (currentLineSegments ws1) > 0
                  then breakLine lineHeight globalAlign ws1
                  else ws1)
           in pushSegment lineHeight segment ws2)"

definition initialWrap :: "alignment \<Rightarrow> wrap_state" where
  "initialWrap globalAlign =
     \<lparr> lines = [], currentLineSegments = [], currentLineMetricsWidth = 0,
       currentLineMaxHeight = 0, currentLineSpaces = 0,
       currentLineEffectiveAlignment = globalAlign \<rparr>"

definition wrapStyledSegments :: "editor \<Rightarrow> LineSegment list \<Rightarrow> real \<Rightarrow> LineData list" where
  "wrapStyledSegments ed segs targetWidth =
     lines (processLine (st_textAlign ed)
              (foldl (wrapSegment (st_lineHeight ed) (st_textAlign ed) targetWidth)
                     (initialWrap (st_textAlign ed)) segs))"

section \<open>Alignment and rasterisation\<close>

text \<open>JavaScript's \<open>a || b\<close> on two numbers: \<open>b\<close> when \<open>a\<close> is zero.\<close>

definition orElse :: "real \<Rightarrow> real \<Rightarrow> real" where
  "orElse a b = (if a = 0 then b else a)"

text \<open>
  What both segment loops of \<open>renderTextOnCanvas\<close> paint for one segment at pen
  position \<open>x\<close>: the glyph and, for an underlined style, a rule one pixel thick.
\<close>

definition paintSegment :: "browser \<Rightarrow> real \<Rightarrow> real \<Rightarrow> LineSegment \<Rightarrow> canvas_op list" where
  "paintSegment br x currentY segment =
     (let s = seg_style segment;
          textMetrics = measureText br (settingsOf s) (seg_char segment)
      in FillText (settingsOf s) (textColor s) (seg_char segment) x currentY #
         (if isUnderline s
          then [FillRect (textColor s) x
                  (currentY + orElse (actualBoundingBoxAscent textMetrics) (fontSize s * 0.8) + 2)
                  (tm_width textMetrics) 1]
          else []))"

record pen =
  drawn :: "canvas_op list"
  tempX :: real

definition drawJustifiedSegment :: "browser \<Rightarrow> real \<Rightarrow> real \<Rightarrow> pen \<Rightarrow> LineSegment \<Rightarrow> pen" where
  "drawJustifiedSegment br extraSpacePerGap currentY p segment =
     \<lparr> drawn = drawn p @ paintSegment br (tempX p) currentY segment,
       tempX = (if seg_char segment = space
                then tempX p + seg_width segment + extraSpacePerGap
                else tempX p + seg_width segment) \<rparr>"

definition drawDefaultSegment :: "browser \<Rightarrow> real \<Rightarrow> pen \<Rightarrow> LineSegment \<Rightarrow> pen" where
  "drawDefaultSegment br currentY p segment =
     \<lparr> drawn = drawn p @ paintSegment br (tempX p) currentY segment,
       tempX = tempX p + seg_width segment \<rparr>"

record render_state =
  rs_ops :: "canvas_op list"
  currentY :: real

text \<open>The body of \<open>linesData.forEach\<close>.\<close>

definition drawLine :: "browser \<Rightarrow> editor \<Rightarrow> real \<Rightarrow> render_state \<Rightarrow> LineData \<Rightarrow> render_state" where
  "drawLine br ed targetWidth rs lineData =
     (let initialPadding = 0;
          actualLineContentWidth = metricsWidth lineData;
          nextY = currentY rs
                  + orElse (maxHeight lineData) (fontSize (getDefaultStyle ed) * st_lineHeight ed);
          plain = (\<lambda>drawX.
                    \<lparr> rs_ops = drawn (foldl (drawDefaultSegment br (currentY rs))
                                          \<lparr> drawn = rs_ops rs, tempX = drawX \<rparr>
                                          (segments lineData)),
                      currentY = nextY \<rparr>)
      in if effectiveAlignment lineData = AlignCenter
         then plain (initialPadding + (targetWidth - actualLineContentWidth) / 2)
         else if effectiveAlignment lineData = AlignRight
         then plain (initialPadding + targetWidth - actualLineContentWidth)
         else if effectiveAlignment lineData = AlignJustify \<and> spaces lineData > 0
                 \<and> list_ex (\<lambda>s. seg_char s \<noteq> space) (segments lineData)
         then
           (let extraSpacePerGap =
                  (targetWidth - actualLineContentWidth) / real (spaces lineData)
            in \<lparr> rs_ops = drawn (foldl (drawJustifiedSegment br extraSpacePerGap (currentY rs))
                                      \<lparr> drawn = rs_ops rs, tempX = initialPadding \<rparr>
                                      (segments lineData)),
                  currentY = nextY \<rparr>)
         else plain initialPadding)"

text \<open>
  Steps 1 and 2 of \<open>renderTextOnCanvas\<close>: the offscreen canvas after every line has
  been drawn, and the height drawn.
\<close>

definition drawAll :: "browser \<Rightarrow> editor \<Rightarrow> string \<Rightarrow> real \<Rightarrow> render_state" where
  "drawAll br ed textToRender targetWidth =
     (let styledSegments = getStyledSegments br ed textToRender;
          linesData = wrapStyledSegments ed styledSegments targetWidth
      in foldl (drawLine br ed targetWidth) \<lparr> rs_ops = [], currentY = 0 \<rparr> linesData)"

text \<open>
  The \<open>width\<close> and \<open>height\<close> of a canvas are unsigned long attributes: an assignment
  stores the integer part of the number assigned, cut toward zero, and a later read gives
  the stored value back. This is the whole conversion for \<open>0 \<le> x < 2^31\<close>, the sizes a
  canvas can hold; the wrap-around of the conversion and the canvas's fallback to its
  default size outside that range are not modelled.
\<close>

definition canvasSize :: "real \<Rightarrow> real" where
  "canvasSize x = of_int (if 0 \<le> x then \<lfloor>x\<rfloor> else \<lceil>x\<rceil>)"

definition offscreenCanvas :: "browser \<Rightarrow> editor \<Rightarrow> string \<Rightarrow> real \<Rightarrow> canvas" where
  "offscreenCanvas br ed textToRender targetWidth =
     \<lparr> cv_width = canvasSize (targetWidth + 200), cv_height = canvasSize 5000,
       cv_ops = rs_ops (drawAll br ed textToRender targetWidth) \<rparr>"

text \<open>Step 3: the scan for the bounds of the pixels whose alpha is not zero.\<close>

record bounds =
  minX :: real
  minY :: real
  maxX :: real
  maxY :: real
  hasContent :: bool

definition alphaPositive :: "ImageData \<Rightarrow> nat \<Rightarrow> nat \<Rightarrow> bool" where
  "alphaPositive imageData i j =
     (let index = (j * img_width imageData + i) * 4
      in index + 3 < length (img_data imageData) \<and> img_data imageData ! (index + 3) > 0)"

definition scanPixel :: "ImageData \<Rightarrow> nat \<Rightarrow> bounds \<Rightarrow> nat \<Rightarrow> bounds" where
  "scanPixel imageData i b j =
     (if alphaPositive imageData i j
      then \<lparr> minX = min (minX b) (real i), minY = min (minY b) (real j),
             maxX = max (maxX b) (real i), maxY = max (maxY b) (real j),
             hasContent = True \<rparr>
      else b)"

definition scanColumn :: "ImageData \<Rightarrow> bounds \<Rightarrow> nat \<Rightarrow> bounds" where
  "scanColumn imageData b i = foldl (scanPixel imageData i) b [0 ..< img_height imageData]"

definition findBounds :: "real \<Rightarrow> real \<Rightarrow> ImageData \<Rightarrow> bounds" where
  "findBounds offscreenWidth offscreenHeight imageData =
     foldl (scanColumn imageData)
       \<lparr> minX = offscreenWidth, minY = offscreenHeight, maxX = 0, maxY = 0,
         hasContent = False \<rparr>
       [0 ..< img_width imageData]"

text \<open>
  \<open>renderTextOnCanvas\<close>. The result is the target canvas as the call leaves it: its
  \<open>width\<close> and \<open>height\<close> as stored, and the operations performed on its context since the
  dimensions were set; \<open>clearRect\<close> and \<open>fillRect\<close> read the stored dimensions back.
  \<open>None\<close> is the return at once when a 2D context is missing. \<open>DrawOffscreen\<close> is
  \<open>drawImage\<close> with the offscreen canvas as its source; its arguments are not converted.
\<close>

definition renderTextOnCanvas ::
  "browser \<Rightarrow> editor \<Rightarrow> string \<Rightarrow> real \<Rightarrow> bool \<Rightarrow> canvas option" where
  "renderTextOnCanvas br ed textToRender targetWidth forExport =
     (if \<not> canvasContext br then None
      else if \<not> offscreenContext br then None
      else
        let offscreen = offscreenCanvas br ed textToRender targetWidth;
            drawnHeight = currentY (drawAll br ed textToRender targetWidth);
            imageData = getImageData br offscreen 0 0 (cv_width offscreen) (drawnHeight + 10);
            b = findBounds (cv_width offscreen) (cv_height offscreen) imageData
        in if \<not> hasContent b
           then
             (let w = canvasSize (if forExport then 4 else targetWidth + 20);
                  h = canvasSize (if forExport then 4 else 200)
              in Some \<lparr> cv_width = w, cv_height = h,
                        cv_ops = ClearRect 0 0 w h #
                                 (if \<not> forExport then [FillRect (st_backgroundColor ed) 0 0 w h]
                                  else []) \<rparr>)
           else
             (let contentWidth = maxX b - minX b + 1;
                  contentHeight = maxY b - minY b + 1
              in if forExport
                 then
                   (let w = canvasSize (contentWidth + 4);
                        h = canvasSize (contentHeight + 4)
                    in Some \<lparr> cv_width = w, cv_height = h,
                              cv_ops = [ClearRect 0 0 w h,
                                        DrawOffscreen (minX b) (minY b) contentWidth contentHeight
                                                      2 2 contentWidth contentHeight] \<rparr>)
                 else
                   (let w = canvasSize (targetWidth + 20);
                        h = canvasSize (drawnHeight + 20)
                    in Some \<lparr> cv_width = w, cv_height = h,
                              cv_ops = [ClearRect 0 0 w h,
                                        FillRect (st_backgroundColor ed) 0 0 w h,
                                        DrawOffscreen 0 0 targetWidth drawnHeight
                                                      10 10 targetWidth drawnHeight] \<rparr>)))"

section \<open>Vocabulary of the specification\<close>

subsection \<open>Lines between explicit breaks\<close>

text \<open>
  \<open>splitLines\<close> cuts a segment sequence at its newline segments, as \<open>split\<close> does on a
  string: \<open>k\<close> newlines give \<open>k + 1\<close> runs, some of them possibly empty. A run fits when
  its running width never exceeds the target width, so that the width test of the line
  breaker never fires; \<open>noOverflow\<close> says so of every run.
\<close>

fun splitLines :: "LineSegment list \<Rightarrow> LineSegment list list" where
  "splitLines [] = [[]]"
| "splitLines (s # ss) =
     (if seg_char s = newline then [] # splitLines ss
      else (s # hd (splitLines ss)) # tl (splitLines ss))"

fun runFits :: "real \<Rightarrow> real \<Rightarrow> LineSegment list \<Rightarrow> bool" where
  "runFits targetWidth acc [] = True"
| "runFits targetWidth acc (s # ss) =
     (acc + seg_width s \<le> targetWidth \<and> runFits targetWidth (acc + seg_width s) ss)"

definition noOverflow :: "real \<Rightarrow> LineSegment list \<Rightarrow> bool" where
  "noOverflow targetWidth segs = list_all (runFits targetWidth 0) (splitLines segs)"

definition countNewlines :: "LineSegment list \<Rightarrow> nat" where
  "countNewlines segs = length (filter (\<lambda>s. seg_char s = newline) segs)"

subsection \<open>Invariants of the line breaker\<close>

text \<open>Everything the breaker holds: the lines pushed, then the accumulator.\<close>

definition flat :: "wrap_state \<Rightarrow> LineSegment list" where
  "flat ws = concat (map segments (lines ws)) @ currentLineSegments ws"

text \<open>A line's aggregates agree with its segments.\<close>

definition lineOK :: "LineData \<Rightarrow> bool" where
  "lineOK l = (metricsWidth l = sumWidth (segments l) \<and> spaces l = countSpaces (segments l))"

definition stateOK :: "wrap_state \<Rightarrow> bool" where
  "stateOK ws = (list_all lineOK (lines ws)
     \<and> currentLineMetricsWidth ws = sumWidth (currentLineSegments ws)
     \<and> currentLineSpaces ws = countSpaces (currentLineSegments ws))"

subsection \<open>The width a line can reach\<close>

text \<open>
  A line fits but for its last segment when the segments before the last fit in the
  target width and, if the whole line does not, none of them is a space.
\<close>

definition fitsButLast :: "real \<Rightarrow> LineSegment list \<Rightarrow> bool" where
  "fitsButLast T xs =
     (sumWidth (butlast xs) \<le> T
      \<and> (sumWidth xs \<le> T \<or> list_all (\<lambda>s. seg_char s \<noteq> space) (butlast xs)))"

definition boundOK :: "real \<Rightarrow> wrap_state \<Rightarrow> bool" where
  "boundOK T ws =
     (list_all (\<lambda>l. fitsButLast T (segments l)) (lines ws)
      \<and> fitsButLast T (currentLineSegments ws)
      \<and> list_all (\<lambda>s. 0 \<le> seg_width s) (currentLineSegments ws)
      \<and> currentLineMetricsWidth ws = sumWidth (currentLineSegments ws))"

text \<open>What the break leaves: lines that fit but for their last segment, and an accumulator
  that fits whole or holds no space.\<close>

definition seedOK :: "real \<Rightarrow> wrap_state \<Rightarrow> bool" where
  "seedOK T ws =
     (list_all (\<lambda>l. fitsButLast T (segments l)) (lines ws)
      \<and> sumWidth (currentLineSegments ws) \<le> T
      \<and> list_all (\<lambda>s. seg_char s \<noteq> space) (currentLineSegments ws)
      \<and> list_all (\<lambda>s. 0 \<le> seg_width s) (currentLineSegments ws)
      \<and> currentLineMetricsWidth ws = sumWidth (currentLineSegments ws))"

subsection \<open>Placement and drawn height\<close>

text \<open>The horizontal positions at which glyphs were painted, in painting order.\<close>

fun textX :: "canvas_op \<Rightarrow> real list" where
  "textX (FillText _ _ _ x _) = [x]"
| "textX _ = []"

definition textXs :: "canvas_op list \<Rightarrow> real list" where
  "textXs ops = concat (map textX ops)"



subsection \<open>The bounding box of the drawn pixels\<close>

text \<open>
  The image the scan reads, its pixels that are not fully transparent (column, row), and
  their bounding box. \<open>getImageData\<close> reports transparent black outside the canvas it
  reads from, which is what \<open>insideOffscreen\<close> records.
\<close>

definition scannedImage :: "browser \<Rightarrow> editor \<Rightarrow> string \<Rightarrow> real \<Rightarrow> ImageData" where
  "scannedImage br ed textToRender targetWidth =
     getImageData br (offscreenCanvas br ed textToRender targetWidth) 0 0
       (canvasSize (targetWidth + 200))
       (currentY (drawAll br ed textToRender targetWidth) + 10)"

definition opaquePixels :: "ImageData \<Rightarrow> (nat \<times> nat) list" where
  "opaquePixels imageData =
     concat (map (\<lambda>i. map (Pair i) (filter (alphaPositive imageData i) [0 ..< img_height imageData]))
                 [0 ..< img_width imageData])"

definition insideOffscreen :: "real \<Rightarrow> ImageData \<Rightarrow> bool" where
  "insideOffscreen targetWidth imageData =
     list_all (\<lambda>p. real (fst p) \<le> targetWidth + 200 \<and> real (snd p) \<le> 5000)
              (opaquePixels imageData)"

definition boxLeft :: "ImageData \<Rightarrow> real" where
  "boxLeft imageData = Min (set (map (real \<circ> fst) (opaquePixels imageData)))"

definition boxRight :: "ImageData \<Rightarrow> real" where
  "boxRight imageData = Max (set (map (real \<circ> fst) (opaquePixels imageData)))"

definition boxTop :: "ImageData \<Rightarrow> real" where
  "boxTop imageData = Min (set (map (real \<circ> snd) (opaquePixels imageData)))"

definition boxBottom :: "ImageData \<Rightarrow> real" where
  "boxBottom imageData = Max (set (map (real \<circ> snd) (opaquePixels imageData)))"

definition boundingBoxWidth :: "ImageData \<Rightarrow> real" where
  "boundingBoxWidth imageData = boxRight imageData - boxLeft imageData + 1"

definition boundingBoxHeight :: "ImageData \<Rightarrow> real" where
  "boundingBoxHeight imageData = boxBottom imageData - boxTop imageData + 1"

text \<open>One step of the scan at a pixel that is not transparent.\<close>

definition absorb :: "bounds \<Rightarrow> nat \<times> nat \<Rightarrow> bounds" where
  "absorb b p =
     \<lparr> minX = min (minX b) (real (fst p)), minY = min (minY b) (real (snd p)),
       maxX = max (maxX b) (real (fst p)), maxY = max (maxY b) (real (snd p)),
       hasContent = True \<rparr>"

subsection \<open>Concrete inputs\<close>

definition exampleStyle :: "alignment option \<Rightarrow> TextStyle" where
  "exampleStyle a =
     \<lparr> fontSize = 14, fontFamily = ''Arial'', textColor = ''#737373'', isBold = False,
       isItalic = False, isUnderline = False, letterSpacing = 0, wordSpacing = 0,
       textAlign = a \<rparr>"

definition seg :: "char \<Rightarrow> real \<Rightarrow> alignment option \<Rightarrow> LineSegment" where
  "seg c w a = \<lparr> seg_char = c, seg_style = exampleStyle a, seg_width = w \<rparr>"

definition exampleEditor :: "alignment \<Rightarrow> editor" where
  "exampleEditor a =
     \<lparr> st_text = ''A'', st_fontSize = 14, st_fontFamily = ''Arial'',
       st_textColor = ''#737373'', st_backgroundColor = ''#ffffff'', st_lineHeight = 1.5,
       st_isBold = False, st_isItalic = False, st_isUnderline = False, st_textAlign = a,
       st_letterSpacing = 0, st_wordSpacing = 0, st_styledRanges = [],
       st_selectedRange = None \<rparr>"

definition exampleRange :: "nat \<Rightarrow> nat \<Rightarrow> alignment \<Rightarrow> StyledRange" where
  "exampleRange s e a =
     \<lparr> range_id = ''1'', range_start = s, range_end = e,
       range_style = exampleStyle (Some a), range_text = [] \<rparr>"

text \<open>A 3 by 2 image whose pixels (1, 0) and (2, 1) are not transparent.\<close>

definition exampleImage :: ImageData where
  "exampleImage =
     \<lparr> img_width = 3, img_height = 2,
       img_data = [0, 0, 0, 0,  0, 0, 0, 255,  0, 0, 0, 0,
                   0, 0, 0, 0,  0, 0, 0, 0,    0, 0, 0, 128] \<rparr>"

definition exampleBrowser :: browser where
  "exampleBrowser =
     \<lparr> canvasContext = True, offscreenContext = True,
       measureText = (\<lambda>_ _. \<lparr> tm_width = 10, actualBoundingBoxAscent = 11 \<rparr>),
       getImageData = (\<lambda>_ _ _ _ _. exampleImage) \<rparr>"

section \<open>The style resolver\<close>

lemma find_first_match:
  "list_all (\<lambda>r'. \<not> covers p r') pre \<Longrightarrow> covers p r \<Longrightarrow>
     find (covers p) (pre @ r # post) = Some r"
  by (induction pre) auto

lemma find_no_match:
  "list_all (\<lambda>r'. \<not> covers p r') rs \<Longrightarrow> find (covers p) rs = None"
  by (induction rs) auto

lemma find_covers_some:
  "r \<in> set rs \<Longrightarrow> covers p r \<Longrightarrow> \<exists>r'. find (covers p) rs = Some r'"
  by (induction rs) auto

text \<open>
  Under the non-overlap invariant the range found is the only range that covers the
  position, whichever covering range one starts from.
\<close>

lemma nonOverlapping_unique:
  "nonOverlapping rs \<Longrightarrow> r \<in> set rs \<Longrightarrow> covers p r \<Longrightarrow>
     find (covers p) rs = Some r' \<Longrightarrow> range_style r' = range_style r"
proof (induction rs)
  case Nil
  then show ?case by simp
next
  case (Cons a rs)
  show ?case
  proof (cases "covers p a")
    case True
    then have r': "r' = a" using Cons.prems(4) by simp
    show ?thesis
    proof (cases "r = a")
      case True
      then show ?thesis using r' by simp
    next
      case False
      then have "r \<in> set rs" using Cons.prems(2) by simp
      then have "range_end a \<le> range_start r \<or> range_end r \<le> range_start a"
        using Cons.prems(1) by (auto simp: list_all_iff)
      then show ?thesis using True Cons.prems(3) by (auto simp: covers_def)
    qed
  next
    case False
    then have "r \<noteq> a" using Cons.prems(3) by auto
    then show ?thesis using Cons False by auto
  qed
qed

text \<open>
  Claim C6. The resolver returns the default style when no range covers the position, and
  the style of the first range, in the order of the list, that covers it otherwise. When
  the ranges satisfy the non-overlap invariant, the style returned is that of any range
  covering the position: the answer does not depend on the order, and every position has
  exactly one style.
\<close>

theorem getStyleForPosition_resolves:
  "(list_all (\<lambda>r. \<not> (range_start r \<le> p \<and> p < range_end r)) (st_styledRanges ed)
      \<longrightarrow> getStyleForPosition ed p = getDefaultStyle ed)
   \<and> (st_styledRanges ed = pre @ r # post
        \<and> list_all (\<lambda>r'. \<not> (range_start r' \<le> p \<and> p < range_end r')) pre
        \<and> range_start r \<le> p \<and> p < range_end r
      \<longrightarrow> getStyleForPosition ed p = range_style r)
   \<and> (nonOverlapping (st_styledRanges ed) \<and> q \<in> set (st_styledRanges ed)
        \<and> range_start q \<le> p \<and> p < range_end q
      \<longrightarrow> getStyleForPosition ed p = range_style q)"
proof (intro conjI impI)
  assume "list_all (\<lambda>r. \<not> (range_start r \<le> p \<and> p < range_end r)) (st_styledRanges ed)"
  then have "find (covers p) (st_styledRanges ed) = None"
    using find_no_match[of p "st_styledRanges ed"] by (simp add: covers_def)
  then show "getStyleForPosition ed p = getDefaultStyle ed"
    by (simp add: getStyleForPosition_def)
next
  assume a: "st_styledRanges ed = pre @ r # post
        \<and> list_all (\<lambda>r'. \<not> (range_start r' \<le> p \<and> p < range_end r')) pre
        \<and> range_start r \<le> p \<and> p < range_end r"
  then have "find (covers p) (pre @ r # post) = Some r"
    using find_first_match[of p pre r post] by (simp add: covers_def)
  then show "getStyleForPosition ed p = range_style r"
    using a by (simp add: getStyleForPosition_def)
next
  assume a: "nonOverlapping (st_styledRanges ed) \<and> q \<in> set (st_styledRanges ed)
        \<and> range_start q \<le> p \<and> p < range_end q"
  then have c: "covers p q" by (simp add: covers_def)
  then obtain r' where f: "find (covers p) (st_styledRanges ed) = Some r'"
    using find_covers_some a by blast
  then have "range_style r' = range_style q"
    using nonOverlapping_unique a c by blast
  then show "getStyleForPosition ed p = range_style q"
    using f by (simp add: getStyleForPosition_def)
qed

text \<open>
  The resolver on the ranges [2,5) centred and [7,9) right-aligned: position 5 is covered
  by neither and gets the default style, position 7 gets the style of the second range.
\<close>

theorem getStyleForPosition_resolves_witness:
  "nonOverlapping [exampleRange 2 5 AlignCenter, exampleRange 7 9 AlignRight]
   \<and> getStyleForPosition
        ((exampleEditor AlignLeft)
           \<lparr> st_styledRanges := [exampleRange 2 5 AlignCenter, exampleRange 7 9 AlignRight] \<rparr>) 5
       = getDefaultStyle (exampleEditor AlignLeft)
   \<and> getStyleForPosition
        ((exampleEditor AlignLeft)
           \<lparr> st_styledRanges := [exampleRange 2 5 AlignCenter, exampleRange 7 9 AlignRight] \<rparr>) 7
       = exampleStyle (Some AlignRight)"
  using getStyleForPosition_resolves
          [where p = 5
             and ed = "(exampleEditor AlignLeft)
                         \<lparr> st_styledRanges := [exampleRange 2 5 AlignCenter,
                                               exampleRange 7 9 AlignRight] \<rparr>"]
        getStyleForPosition_resolves
          [where p = 7
             and ed = "(exampleEditor AlignLeft)
                         \<lparr> st_styledRanges := [exampleRange 2 5 AlignCenter,
                                               exampleRange 7 9 AlignRight] \<rparr>"
             and pre = "[exampleRange 2 5 AlignCenter]"
             and r = "exampleRange 7 9 AlignRight" and post = "[]"
             and q = "exampleRange 7 9 AlignRight"]
  by (simp add: exampleRange_def getDefaultStyle_def exampleEditor_def)

section \<open>Style-range creation\<close>

lemma keeps_iff_not_overlaps:
  "s < e \<Longrightarrow> wellFormed r \<Longrightarrow> keeps s e r = (\<not> overlaps s e r)"
  by (auto simp: keeps_def overlaps_def wellFormed_def)

lemma filter_keeps:
  "s < e \<Longrightarrow> list_all wellFormed rs \<Longrightarrow>
     filter (keeps s e) rs = filter (\<lambda>r. \<not> overlaps s e r) rs"
  by (induction rs) (auto simp: keeps_iff_not_overlaps)

text \<open>
  Claim C5. Applying a style to a selection [s, e) that is not empty, over ranges that are
  not empty, leaves exactly the old ranges that share no position with [s, e), in their
  old order, followed by the new range; a range that overlaps the selection at all is
  dropped whole. In particular [2,5) followed by [4,8) leaves the single range [4,8) with
  the style current at the second application.
\<close>

theorem applyStyleToSelection_replaces_overlaps:
  "(st_selectedRange ed = Some (s, e) \<and> s < e \<and> list_all wellFormed (st_styledRanges ed)
      \<longrightarrow> st_styledRanges (applyStyleToSelection now ed) =
            filter (\<lambda>r. \<not> overlaps s e r) (st_styledRanges ed) @
            [\<lparr> range_id = toString now, range_start = s, range_end = e,
               range_style = getDefaultStyle ed, range_text = slice (st_text ed) s e \<rparr>])
   \<and> (st_styledRanges ed = [] \<and> st_selectedRange ed = Some (2, 5)
        \<and> st_styledRanges ed' = st_styledRanges (applyStyleToSelection now ed)
        \<and> st_selectedRange ed' = Some (4, 8)
      \<longrightarrow> st_styledRanges (applyStyleToSelection now' ed') =
            [\<lparr> range_id = toString now', range_start = 4, range_end = 8,
               range_style = getDefaultStyle ed', range_text = slice (st_text ed') 4 8 \<rparr>])"
proof (intro conjI impI)
  assume a: "st_selectedRange ed = Some (s, e) \<and> s < e
               \<and> list_all wellFormed (st_styledRanges ed)"
  then show "st_styledRanges (applyStyleToSelection now ed) =
            filter (\<lambda>r. \<not> overlaps s e r) (st_styledRanges ed) @
            [\<lparr> range_id = toString now, range_start = s, range_end = e,
               range_style = getDefaultStyle ed, range_text = slice (st_text ed) s e \<rparr>]"
    using filter_keeps[of s e "st_styledRanges ed"]
    by (simp add: applyStyleToSelection_def Let_def)
next
  assume a: "st_styledRanges ed = [] \<and> st_selectedRange ed = Some (2, 5)
        \<and> st_styledRanges ed' = st_styledRanges (applyStyleToSelection now ed)
        \<and> st_selectedRange ed' = Some (4, 8)"
  then have "st_styledRanges ed' =
      [\<lparr> range_id = toString now, range_start = 2, range_end = 5,
         range_style = getDefaultStyle ed, range_text = slice (st_text ed) 2 5 \<rparr>]"
    by (simp add: applyStyleToSelection_def Let_def)
  then show "st_styledRanges (applyStyleToSelection now' ed') =
            [\<lparr> range_id = toString now', range_start = 4, range_end = 8,
               range_style = getDefaultStyle ed', range_text = slice (st_text ed') 4 8 \<rparr>]"
    using a by (simp add: applyStyleToSelection_def Let_def keeps_def)
qed

text \<open>
  Over the ranges [2,5) and [7,9), the selection [4,8) overlaps both and replaces both;
  and the two applications of the claim's example, the second under a style switched to
  bold, leave the one range [4,8) in bold.
\<close>

theorem applyStyleToSelection_replaces_overlaps_witness:
  "list_all wellFormed [exampleRange 2 5 AlignCenter, exampleRange 7 9 AlignRight]
   \<and> map (\<lambda>r. (range_start r, range_end r))
        (st_styledRanges (applyStyleToSelection 1
           ((exampleEditor AlignLeft)
              \<lparr> st_styledRanges := [exampleRange 2 5 AlignCenter, exampleRange 7 9 AlignRight],
                st_selectedRange := Some (4, 8) \<rparr>)))
       = [(4, 8)]
   \<and> map (\<lambda>r. (range_start r, range_end r, isBold (range_style r)))
        (st_styledRanges (applyStyleToSelection 2
           ((applyStyleToSelection 1 ((exampleEditor AlignLeft) \<lparr> st_selectedRange := Some (2, 5) \<rparr>))
              \<lparr> st_selectedRange := Some (4, 8), st_isBold := True \<rparr>)))
       = [(4, 8, True)]"
  using applyStyleToSelection_replaces_overlaps
          [where s = 4 and e = 8 and now = 1
             and ed = "(exampleEditor AlignLeft)
                         \<lparr> st_styledRanges := [exampleRange 2 5 AlignCenter,
                                               exampleRange 7 9 AlignRight],
                           st_selectedRange := Some (4, 8) \<rparr>"]
        applyStyleToSelection_replaces_overlaps
          [where now = 1 and now' = 2
             and ed = "(exampleEditor AlignLeft) \<lparr> st_selectedRange := Some (2, 5) \<rparr>"
             and ed' = "(applyStyleToSelection 1
                           ((exampleEditor AlignLeft) \<lparr> st_selectedRange := Some (2, 5) \<rparr>))
                         \<lparr> st_selectedRange := Some (4, 8), st_isBold := True \<rparr>"]
  by (simp add: exampleRange_def exampleEditor_def wellFormed_def overlaps_def
      getDefaultStyle_def)

text \<open>
  The selection hook is written by \<open>handleTextSelection\<close>, from a text area whose ends
  are in order, and by \<open>applyStyleToSelection\<close>, which clears it: a selection held by the
  component always has its ends in order.
\<close>

lemma handleTextSelection_ordered:
  assumes "selectionOrdered ed" and "case textareaRef of None \<Rightarrow> True | Some ta \<Rightarrow> textareaOK ta"
  shows "selectionOrdered (handleTextSelection textareaRef ed)"
  using assms
  by (auto simp: handleTextSelection_def selectionOrdered_def textareaOK_def Let_def
      split: option.splits)

lemma applyStyleToSelection_ordered:
  "selectionOrdered ed \<Longrightarrow> selectionOrdered (applyStyleToSelection now ed)"
  by (auto simp: applyStyleToSelection_def selectionOrdered_def Let_def split: option.splits)

text \<open>
  Claim C9. For a selection the component can hold, \<open>start \<ge> end\<close> leaves \<open>start = end\<close>,
  and the operation returns at once with every part of the state, the style ranges among
  them, as it was. So it does after the text area has reported an empty selection: the
  hook is then cleared and the operation finds no selection.
\<close>

theorem applyStyleToSelection_rejects_invalid:
  "(selectionOrdered ed \<and> st_selectedRange ed = Some (s, e) \<and> s \<ge> e
      \<longrightarrow> applyStyleToSelection now ed = ed)
   \<and> (textareaOK ta \<and> selectionStart ta \<ge> selectionEnd ta
      \<longrightarrow> applyStyleToSelection now (handleTextSelection (Some ta) ed)
            = handleTextSelection (Some ta) ed
          \<and> st_styledRanges (applyStyleToSelection now (handleTextSelection (Some ta) ed))
            = st_styledRanges ed)"
  by (auto simp: applyStyleToSelection_def selectionOrdered_def handleTextSelection_def
      textareaOK_def Let_def)

text \<open>
  The range [2,5) is in place; the held selection (3, 3), and then a text area whose
  caret stands at 3, leave it alone.
\<close>

theorem applyStyleToSelection_rejects_invalid_witness:
  "selectionOrdered ((exampleEditor AlignLeft)
       \<lparr> st_styledRanges := [exampleRange 2 5 AlignCenter], st_selectedRange := Some (3, 3) \<rparr>)
   \<and> st_styledRanges (applyStyleToSelection 1 ((exampleEditor AlignLeft)
       \<lparr> st_styledRanges := [exampleRange 2 5 AlignCenter], st_selectedRange := Some (3, 3) \<rparr>))
     = [exampleRange 2 5 AlignCenter]
   \<and> textareaOK \<lparr> selectionStart = 3, selectionEnd = 3 \<rparr>
   \<and> st_styledRanges (applyStyleToSelection 1
         (handleTextSelection (Some \<lparr> selectionStart = 3, selectionEnd = 3 \<rparr>)
            ((exampleEditor AlignLeft) \<lparr> st_styledRanges := [exampleRange 2 5 AlignCenter] \<rparr>)))
     = [exampleRange 2 5 AlignCenter]"
  using applyStyleToSelection_rejects_invalid
          [where s = 3 and e = 3 and now = 1
             and ta = "\<lparr> selectionStart = 3, selectionEnd = 3 \<rparr>"
             and ed = "(exampleEditor AlignLeft)
                         \<lparr> st_styledRanges := [exampleRange 2 5 AlignCenter],
                           st_selectedRange := Some (3, 3) \<rparr>"]
        applyStyleToSelection_rejects_invalid
          [where s = 3 and e = 3 and now = 1
             and ta = "\<lparr> selectionStart = 3, selectionEnd = 3 \<rparr>"
             and ed = "(exampleEditor AlignLeft)
                         \<lparr> st_styledRanges := [exampleRange 2 5 AlignCenter] \<rparr>"]
  by (simp add: selectionOrdered_def textareaOK_def handleTextSelection_def)

section \<open>The line breaker\<close>

subsection \<open>No segment is lost\<close>

lemma flat_processLine: "flat (processLine g ws) = flat ws"
  by (simp add: flat_def processLine_def)

lemma lines_processLine_concat:
  "concat (map segments (lines (processLine g ws))) = flat ws"
  by (simp add: flat_def processLine_def)

lemma flat_adoptAlignment: "flat (adoptAlignment g s ws) = flat ws"
  by (simp add: flat_def adoptAlignment_def split: option.splits)

text \<open>The two slices of a word-boundary break partition the accumulator.\<close>

lemma flat_breakLine: "flat (breakLine lh g ws) = flat ws"
  by (simp add: flat_def breakLine_def processLine_def Let_def split: option.splits)

lemma flat_pushSegment: "flat (pushSegment lh s ws) = flat ws @ [s]"
  by (simp add: flat_def pushSegment_def)

lemma flat_wrapSegment:
  "flat (wrapSegment lh g T ws s) = flat ws @ (if seg_char s = newline then [] else [s])"
  by (simp add: wrapSegment_def Let_def flat_processLine flat_adoptAlignment flat_breakLine
      flat_pushSegment)

lemma flat_foldl:
  "flat (foldl (wrapSegment lh g T) ws segs) =
     flat ws @ filter (\<lambda>s. seg_char s \<noteq> newline) segs"
  by (induction segs arbitrary: ws) (simp_all add: flat_wrapSegment)

lemma wrap_concat:
  "concat (map segments (wrapStyledSegments ed segs T)) =
     filter (\<lambda>s. seg_char s \<noteq> newline) segs"
proof -
  have "flat (initialWrap (st_textAlign ed)) = []"
    by (simp add: flat_def initialWrap_def)
  then show ?thesis
    by (simp add: wrapStyledSegments_def lines_processLine_concat flat_foldl)
qed

text \<open>
  Claim C10. Whatever the target width, the line height and the alignment, the lines
  returned, laid end to end, are the input segments without the newline segments: same
  segments, same order, each with the character, style and width it came with.
\<close>

theorem wrapStyledSegments_preserves_segments:
  "concat (map segments (wrapStyledSegments ed segs targetWidth)) =
     filter (\<lambda>s. seg_char s \<noteq> newline) segs"
  by (rule wrap_concat)

subsection \<open>Explicit breaks\<close>

lemma splitLines_nonempty: "splitLines segs \<noteq> []"
  by (induction segs) auto

lemma splitLines_length: "length (splitLines segs) = countNewlines segs + 1"
  by (induction segs) (auto simp: countNewlines_def splitLines_nonempty)

lemma adopt_fields [simp]:
  "lines (adoptAlignment g s ws) = lines ws"
  "currentLineSegments (adoptAlignment g s ws) = currentLineSegments ws"
  "currentLineMetricsWidth (adoptAlignment g s ws) = currentLineMetricsWidth ws"
  "currentLineSpaces (adoptAlignment g s ws) = currentLineSpaces ws"
  "currentLineMaxHeight (adoptAlignment g s ws) = currentLineMaxHeight ws"
  by (simp_all add: adoptAlignment_def split: option.splits)

text \<open>
  The breaker started in any state whose running width lets the first run fit: the width
  test never fires, each newline pushes the accumulator when it holds a segment, and the
  final \<open>processLine\<close> does the same for the last run.
\<close>

lemma wrap_no_overflow_gen:
  "runFits T (currentLineMetricsWidth ws) (hd (splitLines segs)) \<Longrightarrow>
   list_all (runFits T 0) (tl (splitLines segs)) \<Longrightarrow>
   map segments (lines (processLine g (foldl (wrapSegment lh g T) ws segs))) =
     map segments (lines ws) @
     filter (\<lambda>r. r \<noteq> [])
       ((currentLineSegments ws @ hd (splitLines segs)) # tl (splitLines segs))"
proof (induction segs arbitrary: ws)
  case Nil
  then show ?case by (simp add: processLine_def)
next
  case (Cons s ss)
  obtain r rs where sl: "splitLines ss = r # rs"
    using splitLines_nonempty[of ss] by (cases "splitLines ss") auto
  show ?case
  proof (cases "seg_char s = newline")
    case True
    let ?ws' = "processLine g (adoptAlignment g s ws)"
    have step: "wrapSegment lh g T ws s = ?ws'"
      using True by (simp add: wrapSegment_def)
    have p1: "runFits T (currentLineMetricsWidth ?ws') (hd (splitLines ss))"
      using Cons.prems(2) True sl by (simp add: processLine_def)
    have p2: "list_all (runFits T 0) (tl (splitLines ss))"
      using Cons.prems(2) True sl by simp
    show ?thesis
      using Cons.IH[OF p1 p2] True sl
      by (simp add: step) (simp add: processLine_def)
  next
    case False
    let ?ws' = "pushSegment lh s (adoptAlignment g s ws)"
    have fit: "currentLineMetricsWidth ws + seg_width s \<le> T"
      using Cons.prems(1) False sl by simp
    then have step: "wrapSegment lh g T ws s = ?ws'"
      using False by (simp add: wrapSegment_def)
    have p1: "runFits T (currentLineMetricsWidth ?ws') (hd (splitLines ss))"
      using Cons.prems(1) False sl by (simp add: pushSegment_def)
    have p2: "list_all (runFits T 0) (tl (splitLines ss))"
      using Cons.prems(2) False sl by simp
    show ?thesis
      using Cons.IH[OF p1 p2] False sl
      by (simp add: step) (simp add: pushSegment_def)
  qed
qed

lemma wrap_no_overflow:
  assumes "noOverflow T segs"
  shows "map segments (wrapStyledSegments ed segs T) = filter (\<lambda>r. r \<noteq> []) (splitLines segs)"
proof -
  obtain r rs where sl: "splitLines segs = r # rs"
    using splitLines_nonempty[of segs] by (cases "splitLines segs") auto
  have p1: "runFits T (currentLineMetricsWidth (initialWrap (st_textAlign ed)))
              (hd (splitLines segs))"
    using assms sl by (simp add: noOverflow_def initialWrap_def)
  have p2: "list_all (runFits T 0) (tl (splitLines segs))"
    using assms sl by (simp add: noOverflow_def)
  show ?thesis
    using wrap_no_overflow_gen[OF p1 p2, of "st_textAlign ed" "st_lineHeight ed"] sl
    by (simp add: wrapStyledSegments_def initialWrap_def)
qed

lemma wrap_no_newline:
  "list_all (\<lambda>l. list_all (\<lambda>s. seg_char s \<noteq> newline) (segments l))
     (wrapStyledSegments ed segs T)"
proof -
  have "\<forall>s \<in> set (concat (map segments (wrapStyledSegments ed segs T))). seg_char s \<noteq> newline"
    by (simp add: wrap_concat)
  then show ?thesis by (auto simp: list_all_iff)
qed

text \<open>
  Claim C3, as the code has it. When no width-triggered break occurs, the lines are the
  runs between consecutive explicit breaks that hold at least one segment, in order,
  each with exactly its segments: a run that is empty (two newlines in a row, a newline
  first or last, an empty text) gives no line. With \<open>k\<close> newlines there are \<open>k + 1\<close> runs,
  so the number of lines is \<open>k + 1\<close> less the number of empty runs. No newline segment is
  a segment of any line.
\<close>

theorem hard_breaks_give_nonempty_runs:
  assumes "noOverflow targetWidth segs"
  shows "map segments (wrapStyledSegments ed segs targetWidth) =
           filter (\<lambda>r. r \<noteq> []) (splitLines segs)
       \<and> length (splitLines segs) = countNewlines segs + 1
       \<and> list_all (\<lambda>l. list_all (\<lambda>s. seg_char s \<noteq> newline) (segments l))
           (wrapStyledSegments ed segs targetWidth)"
  using assms by (simp add: wrap_no_overflow splitLines_length wrap_no_newline)

text \<open>The text "a", newline, newline, "b" at target width 100.\<close>

theorem hard_breaks_give_nonempty_runs_witness:
  "noOverflow 100 [seg CHR ''a'' 10 None, seg newline 0 None, seg newline 0 None,
                   seg CHR ''b'' 10 None]
   \<and> map segments
        (wrapStyledSegments (exampleEditor AlignLeft)
           [seg CHR ''a'' 10 None, seg newline 0 None, seg newline 0 None,
            seg CHR ''b'' 10 None] 100)
       = [[seg CHR ''a'' 10 None], [seg CHR ''b'' 10 None]]"
proof -
  have h: "noOverflow 100 [seg CHR ''a'' 10 None, seg newline 0 None, seg newline 0 None,
                           seg CHR ''b'' 10 None]"
    by (simp add: noOverflow_def seg_def newline_def)
  have e: "filter (\<lambda>r. r \<noteq> [])
             (splitLines [seg CHR ''a'' 10 None, seg newline 0 None, seg newline 0 None,
                          seg CHR ''b'' 10 None])
           = [[seg CHR ''a'' 10 None], [seg CHR ''b'' 10 None]]"
    by (simp add: seg_def newline_def)
  show ?thesis
    using h e hard_breaks_give_nonempty_runs[OF h, of "exampleEditor AlignLeft"] by simp
qed

text \<open>
  The same text has two newlines and fits, yet wraps to two lines, not three: the empty
  run between the two newlines is dropped.
\<close>

theorem hard_breaks_empty_run_counterexample:
  "noOverflow 100 [seg CHR ''a'' 10 None, seg newline 0 None, seg newline 0 None,
                   seg CHR ''b'' 10 None]
   \<and> countNewlines [seg CHR ''a'' 10 None, seg newline 0 None, seg newline 0 None,
                     seg CHR ''b'' 10 None] = 2
   \<and> map (\<lambda>l. map seg_char (segments l))
        (wrapStyledSegments (exampleEditor AlignLeft)
           [seg CHR ''a'' 10 None, seg newline 0 None, seg newline 0 None,
            seg CHR ''b'' 10 None] 100)
       = [''a'', ''b'']"
  by code_simp

subsection \<open>Width and alignment at a width-triggered break\<close>

lemma foldl_width: "foldl (\<lambda>sum s. sum + seg_width s) a xs = a + sum_list (map seg_width xs)"
  by (induction xs arbitrary: a) simp_all

lemma sumWidth_sum_list: "sumWidth xs = sum_list (map seg_width xs)"
  by (simp add: sumWidth_def foldl_width)

lemma sumWidth_append: "sumWidth (xs @ ys) = sumWidth xs + sumWidth ys"
  by (simp add: sumWidth_sum_list)

lemma sumWidth_nonneg: "list_all (\<lambda>s. 0 \<le> seg_width s) xs \<Longrightarrow> 0 \<le> sumWidth xs"
  by (induction xs) (simp_all add: sumWidth_sum_list)

lemma sumWidth_take:
  assumes "list_all (\<lambda>s. 0 \<le> seg_width s) xs"
  shows "sumWidth (take n xs) \<le> sumWidth xs"
proof -
  have "list_all (\<lambda>s. 0 \<le> seg_width s) (drop n xs)"
    using assms by (auto simp: list_all_iff dest: in_set_dropD)
  then have "0 \<le> sumWidth (drop n xs)" by (rule sumWidth_nonneg)
  moreover have "sumWidth xs = sumWidth (take n xs) + sumWidth (drop n xs)"
    using sumWidth_append[of "take n xs" "drop n xs"] by simp
  ultimately show ?thesis by simp
qed

lemma sumWidth_drop:
  assumes "list_all (\<lambda>s. 0 \<le> seg_width s) xs"
  shows "sumWidth (drop n xs) \<le> sumWidth xs"
proof -
  have "list_all (\<lambda>s. 0 \<le> seg_width s) (take n xs)"
    using assms by (auto simp: list_all_iff dest: in_set_takeD)
  then have "0 \<le> sumWidth (take n xs)" by (rule sumWidth_nonneg)
  moreover have "sumWidth xs = sumWidth (take n xs) + sumWidth (drop n xs)"
    using sumWidth_append[of "take n xs" "drop n xs"] by simp
  ultimately show ?thesis by simp
qed

lemma scanBack_Some:
  "scanBack xs n = Some k \<Longrightarrow>
     k < n \<and> seg_char (xs ! k) = space \<and> (\<forall>j. k < j \<and> j < n \<longrightarrow> seg_char (xs ! j) \<noteq> space)"
proof (induction n)
  case 0
  then show ?case by simp
next
  case (Suc n)
  show ?case
  proof (cases "seg_char (xs ! n) = space")
    case True
    then show ?thesis using Suc.prems by auto
  next
    case False
    then have "scanBack xs n = Some k" using Suc.prems by simp
    then have ih: "k < n \<and> seg_char (xs ! k) = space
        \<and> (\<forall>j. k < j \<and> j < n \<longrightarrow> seg_char (xs ! j) \<noteq> space)"
      by (rule Suc.IH)
    then show ?thesis using False by (auto simp: less_Suc_eq)
  qed
qed

lemma after_last_space:
  assumes "lastSpaceIndex xs = Some k"
  shows "list_all (\<lambda>s. seg_char s \<noteq> space) (drop (k + 1) xs)"
proof -
  have f: "\<forall>j. k < j \<and> j < length xs \<longrightarrow> seg_char (xs ! j) \<noteq> space"
    using scanBack_Some[of xs "length xs" k] assms by (simp add: lastSpaceIndex_def)
  show ?thesis
    unfolding list_all_length
  proof (intro allI impI)
    fix i assume "i < length (drop (k + 1) xs)"
    then have "k + 1 + i < length xs" by simp
    then show "seg_char (drop (k + 1) xs ! i) \<noteq> space"
      using f by simp
  qed
qed

lemma last_space_is_last:
  assumes "lastSpaceIndex xs = Some k" "list_all (\<lambda>s. seg_char s \<noteq> space) (butlast xs)"
  shows "Suc k = length xs"
proof (rule ccontr)
  assume n: "Suc k \<noteq> length xs"
  have k: "k < length xs" "seg_char (xs ! k) = space"
    using scanBack_Some[of xs "length xs" k] assms(1) by (simp_all add: lastSpaceIndex_def)
  then have "k < length (butlast xs)" using n by simp
  then have "seg_char (butlast xs ! k) \<noteq> space"
    using assms(2) by (simp add: list_all_length)
  then show False using k \<open>k < length (butlast xs)\<close> by (simp add: nth_butlast)
qed

lemma fitsButLast_Nil: "0 \<le> T \<Longrightarrow> fitsButLast T []"
  by (simp add: fitsButLast_def sumWidth_def)

lemma boundOK_processLine: "0 \<le> T \<Longrightarrow> boundOK T ws \<Longrightarrow> boundOK T (processLine g ws)"
  by (simp add: boundOK_def processLine_def fitsButLast_Nil) (simp add: sumWidth_def)

lemma boundOK_adopt: "boundOK T ws \<Longrightarrow> boundOK T (adoptAlignment g s ws)"
  by (simp add: boundOK_def adoptAlignment_def split: option.splits)

lemma seedOK_breakLine:
  assumes "0 \<le> T" "boundOK T ws"
  shows "seedOK T (breakLine lh g ws)"
proof (cases "lastSpaceIndex (currentLineSegments ws)")
  case None
  then show ?thesis
    using assms by (simp add: breakLine_def processLine_def seedOK_def boundOK_def sumWidth_def)
next
  case (Some k)
  let ?cur = "currentLineSegments ws"
  have nn: "list_all (\<lambda>s. 0 \<le> seg_width s) ?cur" using assms(2) by (simp add: boundOK_def)
  have fb: "fitsButLast T ?cur" using assms(2) by (simp add: boundOK_def)
  have klt: "k < length ?cur"
    using scanBack_Some[of ?cur "length ?cur" k] Some by (simp add: lastSpaceIndex_def)
  have nosp: "list_all (\<lambda>s. seg_char s \<noteq> space) (drop (k + 1) ?cur)"
    using after_last_space[OF Some] .
  have nn_drop: "list_all (\<lambda>s. 0 \<le> seg_width s) (drop (k + 1) ?cur)"
    using nn by (auto simp: list_all_iff dest: in_set_dropD)
  have kept: "fitsButLast T (take (k + 1) ?cur) \<and> sumWidth (drop (k + 1) ?cur) \<le> T"
  proof (cases "sumWidth ?cur \<le> T")
    case True
    have bl: "butlast (take (Suc k) ?cur) = take k ?cur"
      using klt by (simp add: butlast_take)
    have "sumWidth (take k ?cur) \<le> T" "sumWidth (take (k + 1) ?cur) \<le> T"
      "sumWidth (drop (k + 1) ?cur) \<le> T"
      using True sumWidth_take[OF nn, of k] sumWidth_take[OF nn, of "k + 1"]
        sumWidth_drop[OF nn, of "k + 1"] by linarith+
    then show ?thesis by (simp add: fitsButLast_def bl)
  next
    case False
    then have "list_all (\<lambda>s. seg_char s \<noteq> space) (butlast ?cur)"
      using fb by (simp add: fitsButLast_def)
    then have "Suc k = length ?cur" using last_space_is_last[OF Some] by simp
    then have "take (k + 1) ?cur = ?cur" "drop (k + 1) ?cur = []" by simp_all
    then show ?thesis using fb assms(1) by (simp add: sumWidth_def)
  qed
  have ne: "take (k + 1) ?cur \<noteq> []" using klt by (cases ?cur) auto
  show ?thesis
    using Some kept nosp nn_drop assms(2) ne
    by (simp add: breakLine_def Let_def processLine_def seedOK_def boundOK_def)
qed

lemma boundOK_push_seed:
  assumes "seedOK T ws" "0 \<le> seg_width s"
  shows "boundOK T (pushSegment lh s ws)"
  using assms
  by (simp add: seedOK_def boundOK_def pushSegment_def fitsButLast_def sumWidth_append)
     (simp add: sumWidth_def)

lemma boundOK_push_fit:
  assumes "0 \<le> T" "boundOK T ws" "0 \<le> seg_width s"
    "\<not> (currentLineMetricsWidth ws + seg_width s > T \<and> length (currentLineSegments ws) > 0)"
  shows "boundOK T (pushSegment lh s ws)"
proof (cases "currentLineSegments ws = []")
  case True
  then show ?thesis
    using assms by (simp add: boundOK_def pushSegment_def fitsButLast_def sumWidth_def)
next
  case False
  then have "sumWidth (currentLineSegments ws) + seg_width s \<le> T"
    using assms(2,4) by (simp add: boundOK_def)
  then show ?thesis
    using assms(1-3)
    by (simp add: boundOK_def pushSegment_def fitsButLast_def sumWidth_append)
       (simp add: sumWidth_def)
qed

lemma boundOK_wrapSegment:
  assumes "0 \<le> T" "boundOK T ws" "0 \<le> seg_width s"
  shows "boundOK T (wrapSegment lh g T ws s)"
proof (cases "seg_char s = newline")
  case True
  then show ?thesis
    using assms by (simp add: wrapSegment_def boundOK_processLine boundOK_adopt)
next
  case False
  let ?ws1 = "adoptAlignment g s ws"
  have b1: "boundOK T ?ws1" using assms(2) by (rule boundOK_adopt)
  show ?thesis
  proof (cases "currentLineMetricsWidth ?ws1 + seg_width s > T \<and> length (currentLineSegments ?ws1) > 0")
    case True
    then have "wrapSegment lh g T ws s = pushSegment lh s (breakLine lh g ?ws1)"
      using False by (simp add: wrapSegment_def)
    then show ?thesis
      using boundOK_push_seed[OF seedOK_breakLine[OF assms(1) b1] assms(3)] by simp
  next
    case nb: False
    then have "wrapSegment lh g T ws s = pushSegment lh s ?ws1"
      using False by (auto simp: wrapSegment_def Let_def)
    then show ?thesis
      using boundOK_push_fit[OF assms(1) b1 assms(3) nb] by simp
  qed
qed

lemma boundOK_foldl:
  "0 \<le> T \<Longrightarrow> boundOK T ws \<Longrightarrow> list_all (\<lambda>s. 0 \<le> seg_width s) segs \<Longrightarrow>
     boundOK T (foldl (wrapSegment lh g T) ws segs)"
  by (induction segs arbitrary: ws) (simp_all add: boundOK_wrapSegment)

text \<open>
  What the breaker does guarantee, for widths that are not negative: every line fits but
  for its last segment, so a line exceeds the target width by less than the width of its
  last segment.
\<close>

lemma wrap_width_bound:
  assumes "0 \<le> T" "list_all (\<lambda>s. 0 \<le> seg_width s) segs"
    "l \<in> set (wrapStyledSegments ed segs T)"
  shows "fitsButLast T (segments l)"
proof -
  have "boundOK T (initialWrap (st_textAlign ed))"
    using assms(1) by (simp add: boundOK_def initialWrap_def fitsButLast_Nil) (simp add: sumWidth_def)
  then have "boundOK T (processLine (st_textAlign ed)
      (foldl (wrapSegment (st_lineHeight ed) (st_textAlign ed) T)
         (initialWrap (st_textAlign ed)) segs))"
    using assms(1,2) by (simp add: boundOK_foldl boundOK_processLine)
  then show ?thesis
    using assms(3) by (simp add: wrapStyledSegments_def boundOK_def list_all_iff)
qed

text \<open>
  Claim C1, evaluated. At target width 100 the text "a bbb", with "a" and the space 10
  wide and each "b" 40 wide, breaks at the space when the third "b" arrives; the two "b"
  moved to the new line and the third are then one line 120 wide, with no segment wider
  than 40. With a space 5 wide, two "b" of 45, a space 20 wide and a "c", the second
  line is "bb" with its space, 110 wide.
\<close>

theorem wrap_overflows_after_word_break:
  "map (\<lambda>l. (map seg_char (segments l), metricsWidth l))
     (wrapStyledSegments (exampleEditor AlignLeft)
        [seg CHR ''a'' 10 None, seg space 10 None, seg CHR ''b'' 40 None,
         seg CHR ''b'' 40 None, seg CHR ''b'' 40 None] 100)
     = [(''a '', 20), (''bbb'', 120)]
   \<and> map (\<lambda>l. (map seg_char (segments l), metricsWidth l))
       (wrapStyledSegments (exampleEditor AlignLeft)
          [seg space 5 None, seg CHR ''b'' 45 None, seg CHR ''b'' 45 None,
           seg space 20 None, seg CHR ''c'' 10 None] 100)
     = [('' '', 5), (''bb '', 110), (''c'', 10)]"
  by code_simp

text \<open>
  After a word-boundary break that moves at least one segment, the accumulator starts
  from the alignment of the first moved segment's style, or from the document default
  when that style has none; the alignment of the line just closed plays no part.
\<close>

lemma breakLine_alignment:
  assumes "lastSpaceIndex (currentLineSegments ws) = Some k"
    and "drop (k + 1) (currentLineSegments ws) = m # ms"
  shows "currentLineEffectiveAlignment (breakLine lh g ws) =
           (case textAlign (seg_style m) of Some a \<Rightarrow> a | None \<Rightarrow> g)"
  using assms by (simp add: breakLine_def Let_def)

text \<open>
  Claim C2, evaluated. The document default is left; "a" carries the default style and
  "b" a centred one; each is 10 wide and the target width is 15. The alignment of "b" is
  adopted before the break it triggers, so the line "a" is pushed centred, and the line
  that holds "b" starts from the default and stays left.
\<close>

theorem wrap_alignment_leaks_across_break:
  "map (\<lambda>l. (map seg_char (segments l), effectiveAlignment l))
     (wrapStyledSegments (exampleEditor AlignLeft)
        [seg CHR ''a'' 10 (Some AlignLeft), seg CHR ''b'' 10 (Some AlignCenter)] 15)
     = [(''a'', AlignCenter), (''b'', AlignLeft)]"
  by code_simp

section \<open>Alignment\<close>

subsection \<open>The aggregates of a line agree with its segments\<close>

lemma sumWidth_snoc: "sumWidth (xs @ [s]) = sumWidth xs + seg_width s"
  by (simp add: sumWidth_def)

lemma countSpaces_snoc:
  "countSpaces (xs @ [s]) = (if seg_char s = space then countSpaces xs + 1 else countSpaces xs)"
  by (simp add: countSpaces_def)

lemma stateOK_processLine: "stateOK ws \<Longrightarrow> stateOK (processLine g ws)"
  by (simp add: stateOK_def processLine_def lineOK_def sumWidth_def countSpaces_def)

lemma stateOK_adopt: "stateOK ws \<Longrightarrow> stateOK (adoptAlignment g s ws)"
  by (simp add: stateOK_def)

lemma stateOK_breakLine: "stateOK ws \<Longrightarrow> stateOK (breakLine lh g ws)"
  by (simp add: stateOK_def breakLine_def processLine_def lineOK_def Let_def sumWidth_def
      countSpaces_def split: option.splits)

lemma stateOK_pushSegment: "stateOK ws \<Longrightarrow> stateOK (pushSegment lh s ws)"
  by (simp add: stateOK_def pushSegment_def sumWidth_snoc countSpaces_snoc)

lemma stateOK_wrapSegment: "stateOK ws \<Longrightarrow> stateOK (wrapSegment lh g T ws s)"
  by (simp add: wrapSegment_def Let_def stateOK_processLine stateOK_adopt stateOK_breakLine
      stateOK_pushSegment)

lemma stateOK_foldl: "stateOK ws \<Longrightarrow> stateOK (foldl (wrapSegment lh g T) ws segs)"
  by (induction segs arbitrary: ws) (simp_all add: stateOK_wrapSegment)

lemma wrap_lineOK:
  assumes "l \<in> set (wrapStyledSegments ed segs T)"
  shows "lineOK l"
proof -
  have "stateOK (initialWrap (st_textAlign ed))"
    by (simp add: stateOK_def initialWrap_def sumWidth_def countSpaces_def)
  then have "stateOK (processLine (st_textAlign ed)
      (foldl (wrapSegment (st_lineHeight ed) (st_textAlign ed) T)
         (initialWrap (st_textAlign ed)) segs))"
    by (simp add: stateOK_foldl stateOK_processLine)
  then show ?thesis
    using assms by (simp add: wrapStyledSegments_def stateOK_def list_all_iff)
qed

subsection \<open>The pen on a justified line\<close>

lemma textXs_append: "textXs (a @ b) = textXs a @ textXs b"
  by (simp add: textXs_def)

lemma textXs_paintSegment: "textXs (paintSegment br x y s) = [x]"
  by (simp add: textXs_def paintSegment_def Let_def)

lemma justified_pen:
  "tempX (foldl (drawJustifiedSegment br extra y) p segs) =
     tempX p + sumWidth segs + extra * real (countSpaces segs)"
proof (induction segs rule: rev_induct)
  case Nil
  then show ?case by (simp add: sumWidth_def countSpaces_def)
next
  case (snoc s segs)
  then show ?case
    by (simp add: drawJustifiedSegment_def sumWidth_snoc countSpaces_snoc algebra_simps)
qed

lemma justified_xs:
  "textXs (drawn (foldl (drawJustifiedSegment br extra y) p segs)) =
     textXs (drawn p) @
     map (\<lambda>i. tempX p + sumWidth (take i segs) + extra * real (countSpaces (take i segs)))
         [0 ..< length segs]"
proof (induction segs rule: rev_induct)
  case Nil
  then show ?case by simp
next
  case (snoc s segs)
  have "textXs (drawn (foldl (drawJustifiedSegment br extra y) p (segs @ [s]))) =
        textXs (drawn (foldl (drawJustifiedSegment br extra y) p segs)) @
        [tempX (foldl (drawJustifiedSegment br extra y) p segs)]"
    by (simp add: drawJustifiedSegment_def textXs_append textXs_paintSegment)
  then show ?case
    using snoc by (simp add: justified_pen)
qed

lemma drawLine_justified:
  assumes "effectiveAlignment l = AlignJustify" "spaces l > 0"
    "list_ex (\<lambda>s. seg_char s \<noteq> space) (segments l)"
  shows "rs_ops (drawLine br ed T rs l) =
     drawn (foldl (drawJustifiedSegment br ((T - metricsWidth l) / real (spaces l)) (currentY rs))
              \<lparr> drawn = rs_ops rs, tempX = 0 \<rparr> (segments l))"
  using assms by (simp add: drawLine_def Let_def)

text \<open>
  Claim C4, as the code has it. On a line of the breaker that is drawn justified, with
  \<open>spaces > 0\<close> and a segment that is not a space, segment \<open>i\<close> is painted at the width
  of the segments before it plus \<open>(targetWidth - metricsWidth) / spaces\<close> for every space
  before it. The right edge of the last segment is the target width when that segment is
  not a space; when it is a space, as on every line ended by a word-boundary break, the
  right edge falls short of the target width by one share of the extra space, which the
  pen adds after it.
\<close>

theorem justify_places_segments:
  assumes "l \<in> set (wrapStyledSegments ed segs targetWidth)"
    and "effectiveAlignment l = AlignJustify"
    and "spaces l > 0"
    and "list_ex (\<lambda>s. seg_char s \<noteq> space) (segments l)"
  shows "textXs (rs_ops (drawLine br ed targetWidth rs l)) =
           textXs (rs_ops rs) @
           map (\<lambda>i. sumWidth (take i (segments l))
                     + (targetWidth - metricsWidth l) / real (spaces l)
                       * real (countSpaces (take i (segments l))))
               [0 ..< length (segments l)]
       \<and> last (textXs (rs_ops (drawLine br ed targetWidth rs l)))
           + seg_width (last (segments l)) =
           (if seg_char (last (segments l)) = space
            then targetWidth - (targetWidth - metricsWidth l) / real (spaces l)
            else targetWidth)"
proof -
  define extra where "extra = (targetWidth - metricsWidth l) / real (spaces l)"
  let ?segs = "segments l"
  have xs: "textXs (rs_ops (drawLine br ed targetWidth rs l)) =
           textXs (rs_ops rs) @
           map (\<lambda>i. sumWidth (take i ?segs) + extra * real (countSpaces (take i ?segs)))
               [0 ..< length ?segs]"
    using assms(2-4) by (simp add: drawLine_justified justified_xs extra_def)
  have ne: "?segs \<noteq> []" using assms(4) by auto
  then obtain n where n: "length ?segs = Suc n" by (cases ?segs) auto
  have ok: "metricsWidth l = sumWidth ?segs" "spaces l = countSpaces ?segs"
    using wrap_lineOK[OF assms(1)] by (simp_all add: lineOK_def)
  have bl: "take n ?segs = butlast ?segs" using n by (simp add: butlast_conv_take)
  have sn: "?segs = butlast ?segs @ [last ?segs]" using ne by simp
  have sw: "sumWidth ?segs = sumWidth (butlast ?segs) + seg_width (last ?segs)"
    using sn sumWidth_snoc by metis
  have cs: "countSpaces ?segs =
      (if seg_char (last ?segs) = space then countSpaces (butlast ?segs) + 1
       else countSpaces (butlast ?segs))"
    using sn countSpaces_snoc by metis
  have lastx: "last (textXs (rs_ops (drawLine br ed targetWidth rs l))) =
      sumWidth (butlast ?segs) + extra * real (countSpaces (butlast ?segs))"
    using xs n bl by simp
  have sp: "real (spaces l) \<noteq> 0" using assms(3) by simp
  have "extra * real (spaces l) = targetWidth - metricsWidth l"
    using sp by (simp add: extra_def)
  then have tot: "sumWidth ?segs + extra * real (countSpaces ?segs) = targetWidth"
    using ok by simp
  have edge: "last (textXs (rs_ops (drawLine br ed targetWidth rs l)))
           + seg_width (last ?segs) =
           (if seg_char (last ?segs) = space then targetWidth - extra else targetWidth)"
  proof (cases "seg_char (last ?segs) = space")
    case True
    then have "real (countSpaces ?segs) = real (countSpaces (butlast ?segs)) + 1"
      using cs by simp
    then have "sumWidth (butlast ?segs) + seg_width (last ?segs)
                 + extra * (real (countSpaces (butlast ?segs)) + 1) = targetWidth"
      using tot sw by (simp only:)
    then show ?thesis using True lastx by (simp add: algebra_simps)
  next
    case False
    then have "real (countSpaces ?segs) = real (countSpaces (butlast ?segs))"
      using cs by simp
    then have "sumWidth (butlast ?segs) + seg_width (last ?segs)
                 + extra * real (countSpaces (butlast ?segs)) = targetWidth"
      using tot sw by (simp only:)
    then show ?thesis using False lastx by (simp add: algebra_simps)
  qed
  show ?thesis
    using xs edge unfolding extra_def by simp
qed

text \<open>
  The text "a b", every segment 40 wide, justified at target width 100: the breaker
  returns "a" with its space (80 wide, one space) and "b".
\<close>

lemma justified_example_lines:
  "wrapStyledSegments (exampleEditor AlignJustify)
     [seg CHR ''a'' 40 None, seg space 40 None, seg CHR ''b'' 40 None] 100
   = [\<lparr> segments = [seg CHR ''a'' 40 None, seg space 40 None], metricsWidth = 80,
        maxHeight = 21, spaces = 1, effectiveAlignment = AlignJustify \<rparr>,
      \<lparr> segments = [seg CHR ''b'' 40 None], metricsWidth = 40,
        maxHeight = 21, spaces = 0, effectiveAlignment = AlignJustify \<rparr>]"
  by code_simp

theorem justify_places_segments_witness:
  "last (textXs (rs_ops (drawLine exampleBrowser (exampleEditor AlignJustify) 100
                           \<lparr> rs_ops = [], currentY = 0 \<rparr>
                           \<lparr> segments = [seg CHR ''a'' 40 None, seg space 40 None],
                             metricsWidth = 80, maxHeight = 21, spaces = 1,
                             effectiveAlignment = AlignJustify \<rparr>)))
     + seg_width (last [seg CHR ''a'' 40 None, seg space 40 None]) = 80"
proof -
  let ?l = "\<lparr> segments = [seg CHR ''a'' 40 None, seg space 40 None],
               metricsWidth = 80, maxHeight = 21, spaces = 1,
               effectiveAlignment = AlignJustify \<rparr>"
  have h1: "?l \<in> set (wrapStyledSegments (exampleEditor AlignJustify)
                        [seg CHR ''a'' 40 None, seg space 40 None, seg CHR ''b'' 40 None] 100)"
    by (simp add: justified_example_lines)
  have h2: "effectiveAlignment ?l = AlignJustify" by simp
  have h3: "spaces ?l > 0" by simp
  have h4: "list_ex (\<lambda>s. seg_char s \<noteq> space) (segments ?l)"
    by (simp add: seg_def space_def sumWidth_def countSpaces_def)
  show ?thesis
    using justify_places_segments[OF h1 h2 h3 h4, of exampleBrowser "\<lparr> rs_ops = [], currentY = 0 \<rparr>"]
    by (simp add: seg_def space_def sumWidth_def countSpaces_def)
qed

text \<open>
  On that first line the last segment is the space: it is painted at 40 and is 40 wide,
  so its right edge is at 80, not at the target width 100.
\<close>

theorem justify_trailing_space_counterexample:
  "effectiveAlignment (hd (wrapStyledSegments (exampleEditor AlignJustify)
       [seg CHR ''a'' 40 None, seg space 40 None, seg CHR ''b'' 40 None] 100)) = AlignJustify
   \<and> spaces (hd (wrapStyledSegments (exampleEditor AlignJustify)
       [seg CHR ''a'' 40 None, seg space 40 None, seg CHR ''b'' 40 None] 100)) = 1
   \<and> map seg_char (segments (hd (wrapStyledSegments (exampleEditor AlignJustify)
       [seg CHR ''a'' 40 None, seg space 40 None, seg CHR ''b'' 40 None] 100))) = ''a ''
   \<and> last (textXs (rs_ops (drawLine exampleBrowser (exampleEditor AlignJustify) 100
                             \<lparr> rs_ops = [], currentY = 0 \<rparr>
                             (hd (wrapStyledSegments (exampleEditor AlignJustify)
                                [seg CHR ''a'' 40 None, seg space 40 None,
                                 seg CHR ''b'' 40 None] 100)))))
       + seg_width (last (segments (hd (wrapStyledSegments (exampleEditor AlignJustify)
           [seg CHR ''a'' 40 None, seg space 40 None, seg CHR ''b'' 40 None] 100)))) = 80
   \<and> last (textXs (rs_ops (drawLine exampleBrowser (exampleEditor AlignJustify) 100
                             \<lparr> rs_ops = [], currentY = 0 \<rparr>
                             (hd (wrapStyledSegments (exampleEditor AlignJustify)
                                [seg CHR ''a'' 40 None, seg space 40 None,
                                 seg CHR ''b'' 40 None] 100)))))
       + seg_width (last (segments (hd (wrapStyledSegments (exampleEditor AlignJustify)
           [seg CHR ''a'' 40 None, seg space 40 None, seg CHR ''b'' 40 None] 100)))) \<noteq> 100"
  by code_simp

section \<open>Rasterisation and cropping\<close>

subsection \<open>The scan computes the bounding box\<close>

lemma scanPixel_absorb:
  "scanPixel img i b j = (if alphaPositive img i j then absorb b (i, j) else b)"
  by (simp add: scanPixel_def absorb_def)

lemma scanColumn_absorb:
  "foldl (scanPixel img i) b js = foldl absorb b (map (Pair i) (filter (alphaPositive img i) js))"
  by (induction js arbitrary: b) (simp_all add: scanPixel_absorb)

lemma scanColumns_absorb:
  "foldl (scanColumn img) b cols =
     foldl absorb b
       (concat (map (\<lambda>i. map (Pair i) (filter (alphaPositive img i) [0 ..< img_height img]))
                    cols))"
  by (induction cols arbitrary: b) (simp_all add: scanColumn_def scanColumn_absorb)

lemma findBounds_absorb:
  "findBounds w h img =
     foldl absorb \<lparr> minX = w, minY = h, maxX = 0, maxY = 0, hasContent = False \<rparr>
       (opaquePixels img)"
  by (simp add: findBounds_def opaquePixels_def scanColumns_absorb)

lemma absorb_hasContent: "hasContent (foldl absorb b ps) = (hasContent b \<or> ps \<noteq> [])"
  by (induction ps arbitrary: b) (simp_all add: absorb_def)

lemma absorb_minX: "minX (foldl absorb b ps) = fold min (map (real \<circ> fst) ps) (minX b)"
  by (induction ps arbitrary: b) (simp_all add: absorb_def min.commute)

lemma absorb_minY: "minY (foldl absorb b ps) = fold min (map (real \<circ> snd) ps) (minY b)"
  by (induction ps arbitrary: b) (simp_all add: absorb_def min.commute)

lemma absorb_maxX: "maxX (foldl absorb b ps) = fold max (map (real \<circ> fst) ps) (maxX b)"
  by (induction ps arbitrary: b) (simp_all add: absorb_def max.commute)

lemma absorb_maxY: "maxY (foldl absorb b ps) = fold max (map (real \<circ> snd) ps) (maxY b)"
  by (induction ps arbitrary: b) (simp_all add: absorb_def max.commute)

text \<open>
  A running minimum started at a value no element exceeds is the minimum of the elements;
  likewise for a running maximum started below every element.
\<close>

lemma fold_min_Min:
  fixes a :: real
  assumes "xs \<noteq> []" "\<forall>x \<in> set xs. x \<le> a"
  shows "fold min xs a = Min (set xs)"
proof -
  have "fold min xs a = Min (set (a # xs))" by (simp only: Min.set_eq_fold)
  also have "\<dots> = min a (Min (set xs))" using assms(1) by simp
  also have "\<dots> = Min (set xs)"
  proof -
    obtain x where "x \<in> set xs" using assms(1) by (cases xs) auto
    then have "Min (set xs) \<le> x" "x \<le> a" using assms(2) by auto
    then show ?thesis by simp
  qed
  finally show ?thesis .
qed

lemma fold_max_Max:
  fixes a :: real
  assumes "xs \<noteq> []" "\<forall>x \<in> set xs. a \<le> x"
  shows "fold max xs a = Max (set xs)"
proof -
  have "fold max xs a = Max (set (a # xs))" by (simp only: Max.set_eq_fold)
  also have "\<dots> = max a (Max (set xs))" using assms(1) by simp
  also have "\<dots> = Max (set xs)"
  proof -
    obtain x where "x \<in> set xs" using assms(1) by (cases xs) auto
    then have "x \<le> Max (set xs)" "a \<le> x" using assms(2) by auto
    then show ?thesis by simp
  qed
  finally show ?thesis .
qed

lemma canvasSize_of_int: "canvasSize (of_int n) = of_int n"
  by (simp add: canvasSize_def)

lemma canvasSize_nonneg: "0 \<le> x \<Longrightarrow> canvasSize x = of_int \<lfloor>x\<rfloor>"
  by (simp add: canvasSize_def)

lemma canvasSize_numerals: "canvasSize 4 = 4" "canvasSize 200 = 200" "canvasSize 5000 = 5000"
  by (simp_all add: canvasSize_def)

text \<open>A whole number of pixels that is within a width is within the width as stored.\<close>

lemma le_canvasSize:
  assumes "real i \<le> x"
  shows "real i \<le> canvasSize x"
proof -
  have "0 \<le> x" using assms by (meson of_nat_0_le_iff order_trans)
  moreover have "int i \<le> \<lfloor>x\<rfloor>" using assms by (simp add: le_floor_iff)
  then have "real_of_int (int i) \<le> real_of_int \<lfloor>x\<rfloor>" by (simp only: of_int_le_iff)
  ultimately show ?thesis by (simp add: canvasSize_nonneg)
qed

lemma findBounds_box:
  assumes "opaquePixels img \<noteq> []" "insideOffscreen T img"
  shows "minX (findBounds (canvasSize (T + 200)) 5000 img) = boxLeft img"
    and "minY (findBounds (canvasSize (T + 200)) 5000 img) = boxTop img"
    and "maxX (findBounds (canvasSize (T + 200)) 5000 img) = boxRight img"
    and "maxY (findBounds (canvasSize (T + 200)) 5000 img) = boxBottom img"
proof -
  have "\<forall>p \<in> set (opaquePixels img). real (fst p) \<le> T + 200"
    using assms(2) by (auto simp: insideOffscreen_def list_all_iff)
  then have in1: "\<forall>x \<in> set (map (real \<circ> fst) (opaquePixels img)). x \<le> canvasSize (T + 200)"
    by (auto intro: le_canvasSize)
  have in2: "\<forall>x \<in> set (map (real \<circ> snd) (opaquePixels img)). x \<le> 5000"
    using assms(2) by (auto simp: insideOffscreen_def list_all_iff)
  have ne1: "map (real \<circ> fst) (opaquePixels img) \<noteq> []" using assms(1) by simp
  have ne2: "map (real \<circ> snd) (opaquePixels img) \<noteq> []" using assms(1) by simp
  show "minX (findBounds (canvasSize (T + 200)) 5000 img) = boxLeft img"
    using fold_min_Min[OF ne1 in1] by (simp add: findBounds_absorb absorb_minX boxLeft_def)
  show "minY (findBounds (canvasSize (T + 200)) 5000 img) = boxTop img"
    using fold_min_Min[OF ne2 in2] by (simp add: findBounds_absorb absorb_minY boxTop_def)
  have "\<forall>x \<in> set (map (real \<circ> fst) (opaquePixels img)). 0 \<le> x" by simp
  then show "maxX (findBounds (canvasSize (T + 200)) 5000 img) = boxRight img"
    using fold_max_Max[OF ne1] by (simp add: findBounds_absorb absorb_maxX boxRight_def)
  have "\<forall>x \<in> set (map (real \<circ> snd) (opaquePixels img)). 0 \<le> x" by simp
  then show "maxY (findBounds (canvasSize (T + 200)) 5000 img) = boxBottom img"
    using fold_max_Max[OF ne2] by (simp add: findBounds_absorb absorb_maxY boxBottom_def)
qed

lemma findBounds_hasContent: "hasContent (findBounds w h img) = (opaquePixels img \<noteq> [])"
  by (simp add: findBounds_absorb absorb_hasContent)

text \<open>
  The sides of the bounding box are pixel indices, so the size of the box plus the
  padding is a whole number and is stored as it is.
\<close>

lemma Min_real_index:
  assumes "ps \<noteq> []"
  shows "\<exists>n::nat. Min (set (map (real \<circ> f) ps)) = real n"
proof -
  have "Min (set (map (real \<circ> f) ps)) \<in> set (map (real \<circ> f) ps)"
    using assms by (intro Min_in) simp_all
  then show ?thesis by auto
qed

lemma Max_real_index:
  assumes "ps \<noteq> []"
  shows "\<exists>n::nat. Max (set (map (real \<circ> f) ps)) = real n"
proof -
  have "Max (set (map (real \<circ> f) ps)) \<in> set (map (real \<circ> f) ps)"
    using assms by (intro Max_in) simp_all
  then show ?thesis by auto
qed

lemma canvasSize_span: "canvasSize (real b - real a + 1 + 4) = real b - real a + 1 + 4"
proof -
  have "real b - real a + 1 + 4 = real_of_int (int b - int a + 5)" by simp
  then show ?thesis by (simp only: canvasSize_of_int)
qed

lemma canvasSize_box:
  assumes "opaquePixels img \<noteq> []"
  shows "canvasSize (boundingBoxWidth img + 4) = boundingBoxWidth img + 4"
    and "canvasSize (boundingBoxHeight img + 4) = boundingBoxHeight img + 4"
proof -
  obtain a b where "boxLeft img = real a" "boxRight img = real b"
    using Min_real_index[OF assms, of fst] Max_real_index[OF assms, of fst]
    by (auto simp: boxLeft_def boxRight_def)
  then show "canvasSize (boundingBoxWidth img + 4) = boundingBoxWidth img + 4"
    by (simp only: boundingBoxWidth_def canvasSize_span)
  obtain c d where "boxTop img = real c" "boxBottom img = real d"
    using Min_real_index[OF assms, of snd] Max_real_index[OF assms, of snd]
    by (auto simp: boxTop_def boxBottom_def)
  then show "canvasSize (boundingBoxHeight img + 4) = boundingBoxHeight img + 4"
    by (simp only: boundingBoxHeight_def canvasSize_span)
qed

subsection \<open>The drawn height\<close>




subsection \<open>The output surface\<close>

text \<open>\<open>renderTextOnCanvas\<close> with both contexts at hand, in terms of the scanned image.\<close>

lemma render_unfold:
  assumes "canvasContext br" "offscreenContext br"
  shows "renderTextOnCanvas br ed txt T forExport =
    (let drawnHeight = currentY (drawAll br ed txt T);
         b = findBounds (canvasSize (T + 200)) 5000 (scannedImage br ed txt T)
     in if \<not> hasContent b
        then
          (let w = canvasSize (if forExport then 4 else T + 20);
               h = canvasSize (if forExport then 4 else 200)
           in Some \<lparr> cv_width = w, cv_height = h,
                     cv_ops = ClearRect 0 0 w h #
                              (if \<not> forExport then [FillRect (st_backgroundColor ed) 0 0 w h]
                               else []) \<rparr>)
        else
          (let contentWidth = maxX b - minX b + 1;
               contentHeight = maxY b - minY b + 1
           in if forExport
              then
                (let w = canvasSize (contentWidth + 4);
                     h = canvasSize (contentHeight + 4)
                 in Some \<lparr> cv_width = w, cv_height = h,
                           cv_ops = [ClearRect 0 0 w h,
                                     DrawOffscreen (minX b) (minY b) contentWidth contentHeight
                                                   2 2 contentWidth contentHeight] \<rparr>)
              else
                (let w = canvasSize (T + 20);
                     h = canvasSize (drawnHeight + 20)
                 in Some \<lparr> cv_width = w, cv_height = h,
                           cv_ops = [ClearRect 0 0 w h,
                                     FillRect (st_backgroundColor ed) 0 0 w h,
                                     DrawOffscreen 0 0 T drawnHeight
                                                   10 10 T drawnHeight] \<rparr>)))"
  using assms
  by (simp add: renderTextOnCanvas_def scannedImage_def offscreenCanvas_def Let_def
      canvasSize_numerals)

text \<open>
  Claim C7. In export mode, when the scanned image has a pixel that is not fully
  transparent, the target canvas is set to the bounding box of those pixels plus 4 in
  each dimension, cleared, never filled, and receives the bounding box of the offscreen
  canvas at offset (2, 2), unscaled. When the image has no such pixel the canvas is 4 by
  4, cleared and nothing else.
\<close>

theorem export_surface:
  assumes "canvasContext br" and "offscreenContext br"
    and "insideOffscreen targetWidth (scannedImage br ed textToRender targetWidth)"
  shows "renderTextOnCanvas br ed textToRender targetWidth True =
     Some (let img = scannedImage br ed textToRender targetWidth;
               w = boundingBoxWidth img; h = boundingBoxHeight img
           in if opaquePixels img = []
              then \<lparr> cv_width = 4, cv_height = 4, cv_ops = [ClearRect 0 0 4 4] \<rparr>
              else \<lparr> cv_width = w + 4, cv_height = h + 4,
                     cv_ops = [ClearRect 0 0 (w + 4) (h + 4),
                               DrawOffscreen (boxLeft img) (boxTop img) w h 2 2 w h] \<rparr>)"
proof (cases "opaquePixels (scannedImage br ed textToRender targetWidth) = []")
  case True
  then show ?thesis
    using assms(1,2)
    by (simp add: render_unfold findBounds_hasContent Let_def canvasSize_numerals)
next
  case False
  let ?img = "scannedImage br ed textToRender targetWidth"
  have hc: "hasContent (findBounds (canvasSize (targetWidth + 200)) 5000 ?img)"
    using False by (simp add: findBounds_hasContent)
  note fb = findBounds_box[OF False assms(3)]
  show ?thesis
    unfolding render_unfold[OF assms(1,2)] Let_def
    by (simp only: hc fb False boundingBoxWidth_def[symmetric] boundingBoxHeight_def[symmetric]
        canvasSize_box[OF False] if_True if_False simp_thms)
qed

lemma exampleImage_pixels: "opaquePixels exampleImage = [(1, 0), (2, 1)]"
  by code_simp

lemma exampleImage_scanned:
  "scannedImage exampleBrowser ed txt T = exampleImage"
  by (simp add: scannedImage_def exampleBrowser_def)

lemma exampleImage_box:
  "boxLeft exampleImage = 1" "boxRight exampleImage = 2"
  "boxTop exampleImage = 0" "boxBottom exampleImage = 1"
  by (simp_all add: boxLeft_def boxRight_def boxTop_def boxBottom_def exampleImage_pixels)

text \<open>
  The text "A" exported at target width 600 by a browser whose scan returns the example
  image: its bounding box is 2 by 2 with corner (1, 0), so the canvas is 6 by 6.
\<close>

theorem export_surface_witness:
  "canvasContext exampleBrowser \<and> offscreenContext exampleBrowser
   \<and> insideOffscreen 600 (scannedImage exampleBrowser (exampleEditor AlignLeft) ''A'' 600)
   \<and> renderTextOnCanvas exampleBrowser (exampleEditor AlignLeft) ''A'' 600 True =
       Some \<lparr> cv_width = 6, cv_height = 6,
              cv_ops = [ClearRect 0 0 6 6, DrawOffscreen 1 0 2 2 2 2 2 2] \<rparr>"
proof -
  have h1: "canvasContext exampleBrowser" by (simp add: exampleBrowser_def)
  have h2: "offscreenContext exampleBrowser" by (simp add: exampleBrowser_def)
  have h3: "insideOffscreen 600 (scannedImage exampleBrowser (exampleEditor AlignLeft) ''A'' 600)"
    by (simp add: exampleImage_scanned insideOffscreen_def exampleImage_pixels)
  show ?thesis
    using h1 h2 h3 export_surface[OF h1 h2 h3]
    by (simp add: exampleImage_scanned exampleImage_pixels exampleImage_box
        boundingBoxWidth_def boundingBoxHeight_def)
qed






end
